theory Spec2Isabelle
  imports Main "HOL-Library.Multiset"
begin

section \<open>The Match model (src/match/Match.ts)\<close>

text \<open>
  \<^verbatim>\<open>Match\<close> is an abstract class with three fields, \<^verbatim>\<open>tagBuilder\<close>,
  \<^verbatim>\<open>matchedText\<close> and \<^verbatim>\<open>offset\<close>, all of them copied from a
  \<^verbatim>\<open>MatchConfig\<close> by the constructor. The class is modelled as an extensible
  record: the fields a subclass adds live in the \<open>more\<close> part of the record scheme,
  and every method of the base class is defined over the scheme, so it applies to
  every subclass instance.

  The \<^verbatim>\<open>AnchorTagBuilder\<close> is a collaborator whose code the class never looks
  into; its type is the parameter \<open>'tb\<close>. An offset is an index into a string and is
  modelled as an \<open>int\<close>, so that negative values are representable, as they are in
  the source's \<^verbatim>\<open>number\<close>.
\<close>

record 'tb MatchConfig =
  tagBuilder :: 'tb
  matchedText :: string
  offset :: int

record 'tb Match =
  tagBuilder :: 'tb
  matchedText :: string
  offset :: int

text \<open>
  The constructor: three assignments, no check, no branch and no \<^verbatim>\<open>throw\<close>.
\<close>

definition newMatch :: "'tb MatchConfig \<Rightarrow> 'tb Match" where
  "newMatch cfg =
     \<lparr> Match.tagBuilder = MatchConfig.tagBuilder cfg,
       Match.matchedText = MatchConfig.matchedText cfg,
       Match.offset = MatchConfig.offset cfg \<rparr>"

definition getMatchedText :: "('tb, 'z) Match_scheme \<Rightarrow> string" where
  "getMatchedText m = Match.matchedText m"

text \<open>
  \<^verbatim>\<open>setOffset\<close> is the one method of the class with an assignment to
  \<^verbatim>\<open>this\<close> in its body; the model returns the updated object.
\<close>

definition setOffset :: "int \<Rightarrow> ('tb, 'z) Match_scheme \<Rightarrow> ('tb, 'z) Match_scheme" where
  "setOffset n m = m\<lparr> Match.offset := n \<rparr>"

definition getOffset :: "('tb, 'z) Match_scheme \<Rightarrow> int" where
  "getOffset m = Match.offset m"

text \<open>
  \<^verbatim>\<open>getType\<close> is abstract: each subclass supplies it. The base-class body of
  \<^verbatim>\<open>getCssClassSuffixes\<close> is \<^verbatim>\<open>return [ this.getType() ]\<close>; the model takes the
  subclass's \<^verbatim>\<open>getType\<close> as an argument.
\<close>

definition getCssClassSuffixes ::
    "(('tb, 'z) Match_scheme \<Rightarrow> string) \<Rightarrow> ('tb, 'z) Match_scheme \<Rightarrow> string list" where
  "getCssClassSuffixes getType m = [getType m]"

text \<open>
  \<^verbatim>\<open>buildTag\<close> hands the match to the tag builder's \<^verbatim>\<open>build\<close> method, which
  is outside this class and taken as an argument.
\<close>

definition buildTag ::
    "('tb \<Rightarrow> ('tb, 'z) Match_scheme \<Rightarrow> 'tag) \<Rightarrow> ('tb, 'z) Match_scheme \<Rightarrow> 'tag" where
  "buildTag build m = build (Match.tagBuilder m) m"


section \<open>The engine around the Match model\<close>

text \<open>
  The Collector, the Replacer and the orchestration that feeds them are described by the
  design document only; the definitions of this section follow its words. They work on
  any list of matches whose subclass part has one type, so a pool may mix the matches
  of several matchers through a common payload type.
\<close>

text \<open>
  Modelled from the spec: the derived field \<^verbatim>\<open>endOffset = offset + matchedText.length\<close>
  (exclusive) of the data model; the class itself has no such method.
\<close>

definition endOffset :: "('tb, 'z) Match_scheme \<Rightarrow> int" where
  "endOffset m = getOffset m + int (length (getMatchedText m))"




subsection \<open>Collector\<close>

text \<open>
  Modelled from the spec: the Collector's sort order (step 1), offset ascending with
  ties broken by the longer matched text first. \<open>precedes a b\<close> says that \<open>a\<close> may
  stand before \<open>b\<close>.
\<close>

definition precedes :: "('tb, 'z) Match_scheme \<Rightarrow> ('tb, 'z) Match_scheme \<Rightarrow> bool" where
  "precedes a b \<longleftrightarrow>
     getOffset a < getOffset b
     \<or> (getOffset a = getOffset b
        \<and> length (getMatchedText b) \<le> length (getMatchedText a))"

text \<open>
  Modelled from the spec: the Collector's sort (step 1), as an insertion sort by
  \<open>precedes\<close>; this is the insertion of one candidate into a sorted list.
\<close>

fun insertMatch ::
    "('tb, 'z) Match_scheme \<Rightarrow> ('tb, 'z) Match_scheme list \<Rightarrow> ('tb, 'z) Match_scheme list" where
  "insertMatch m [] = [m]"
| "insertMatch m (x # xs) = (if precedes m x then m # x # xs else x # insertMatch m xs)"

text \<open>
  Modelled from the spec: the sorted pool (step 1), every candidate inserted in turn;
  of two candidates with the same offset and length the earlier one stays first.
\<close>

definition sortMatches :: "('tb, 'z) Match_scheme list \<Rightarrow> ('tb, 'z) Match_scheme list" where
  "sortMatches ms = foldr insertMatch ms []"

text \<open>
  Modelled from the spec: the state of the Collector's sweep (step 2), the offset where
  the previously accepted match ends and the matches accepted so far. Before the first
  match is accepted there is no such offset, hence the \<open>option\<close>.
\<close>

record 'm SweepState =
  runningEnd :: "int option"
  accepted :: "'m list"

text \<open>
  Modelled from the spec: the Collector's rejection test (step 2), an offset strictly
  less than the running end.
\<close>

definition rejected :: "int option \<Rightarrow> ('tb, 'z) Match_scheme \<Rightarrow> bool" where
  "rejected e m = (case e of None \<Rightarrow> False | Some r \<Rightarrow> getOffset m < r)"

text \<open>
  Modelled from the spec: one step of the Collector's sweep (step 2). A rejected
  candidate leaves the state as it is; an accepted one is appended and the running end
  advances to its end offset.
\<close>

definition sweepStep ::
    "('tb, 'z) Match_scheme \<Rightarrow> ('tb, 'z) Match_scheme SweepState
       \<Rightarrow> ('tb, 'z) Match_scheme SweepState" where
  "sweepStep m st =
     (if rejected (runningEnd st) m then st
      else \<lparr> runningEnd = Some (endOffset m), accepted = accepted st @ [m] \<rparr>)"

text \<open>
  Modelled from the spec: the Collector (section 4.3), the sort followed by the
  left-to-right sweep over the sorted pool.
\<close>

definition collector :: "('tb, 'z) Match_scheme list \<Rightarrow> ('tb, 'z) Match_scheme list" where
  "collector pool =
     accepted (fold sweepStep (sortMatches pool) \<lparr> runningEnd = None, accepted = [] \<rparr>)"

text \<open>
  Modelled from the spec: the sweep of step 2 once more, written as the recursion that
  its sentence describes (rejected and skipped, or accepted with the running end
  advanced), to be compared with the loop above.
\<close>

fun sweep :: "int option \<Rightarrow> ('tb, 'z) Match_scheme list \<Rightarrow> ('tb, 'z) Match_scheme list" where
  "sweep e [] = []"
| "sweep e (m # ms) =
     (if rejected e m then sweep e ms else m # sweep (Some (endOffset m)) ms)"

subsection \<open>Orchestration: from text nodes to the finalized match list\<close>





subsection \<open>Replacer\<close>








section \<open>Lemmas about the engine\<close>

subsection \<open>Sorting\<close>

lemma set_insertMatch: "set (insertMatch m xs) = insert m (set xs)"
  by (induction xs) auto


lemma precedes_total: "\<not> precedes a b \<Longrightarrow> precedes b a"
  by (auto simp: precedes_def)

lemma precedes_trans: "precedes a b \<Longrightarrow> precedes b c \<Longrightarrow> precedes a c"
  by (auto simp: precedes_def)

lemma sorted_insertMatch:
  "sorted_wrt precedes xs \<Longrightarrow> sorted_wrt precedes (insertMatch m xs)"
  by (induction xs) (auto simp: set_insertMatch dest: precedes_total precedes_trans)

lemma sorted_sortMatches: "sorted_wrt precedes (sortMatches ms)"
  by (induction ms) (simp_all add: sortMatches_def sorted_insertMatch)

lemma fold_sweepStep:
  "accepted (fold sweepStep ms st) = accepted st @ sweep (runningEnd st) ms"
  by (induction ms arbitrary: st) (simp_all add: sweepStep_def)

lemma collector_sweep: "collector pool = sweep None (sortMatches pool)"
  by (simp add: collector_def fold_sweepStep)


lemma offset_le_endOffset: "getOffset m \<le> endOffset m"
  by (simp add: endOffset_def)

lemma sweep_head: "sweep e ms = x # xs \<Longrightarrow> \<not> rejected e x"
proof (induction ms arbitrary: e)
  case Nil
  then show ?case by simp
next
  case (Cons m ms)
  show ?case
  proof (cases "rejected e m")
    case True
    with Cons.prems have "sweep e ms = x # xs" by simp
    then show ?thesis by (rule Cons.IH)
  next
    case False
    with Cons.prems have "x = m" by simp
    with False show ?thesis by simp
  qed
qed

lemma sweep_successively:
  "successively (\<lambda>a b. endOffset a \<le> getOffset b) (sweep e ms)"
proof (induction ms arbitrary: e)
  case Nil
  show ?case by simp
next
  case (Cons m ms)
  show ?case
  proof (cases "rejected e m")
    case True
    then show ?thesis using Cons.IH by simp
  next
    case False
    let ?rest = "sweep (Some (endOffset m)) ms"
    have step: "?rest = [] \<or> endOffset m \<le> getOffset (hd ?rest)"
    proof (cases ?rest)
      case Nil
      then show ?thesis by simp
    next
      case (Cons x xs)
      from sweep_head[OF this] have "endOffset m \<le> getOffset x"
        by (simp add: rejected_def)
      with Cons show ?thesis by simp
    qed
    have "successively (\<lambda>a b. endOffset a \<le> getOffset b) (m # ?rest)"
      using step Cons.IH[of "Some (endOffset m)"] by (simp add: successively_Cons)
    with False show ?thesis by simp
  qed
qed

lemma mset_insertMatch: "mset (insertMatch m xs) = add_mset m (mset xs)"
  by (induction xs) simp_all

lemma mset_sortMatches: "mset (sortMatches ms) = mset ms"
  by (induction ms) (simp_all add: sortMatches_def mset_insertMatch)

lemma runningEnd_fold:
  "runningEnd st = (if accepted st = [] then None else Some (endOffset (last (accepted st))))
   \<Longrightarrow> runningEnd (fold sweepStep ms st)
       = (if accepted (fold sweepStep ms st) = [] then None
          else Some (endOffset (last (accepted (fold sweepStep ms st)))))"
proof (induction ms arbitrary: st)
  case Nil
  then show ?case by simp
next
  case (Cons m ms)
  have "runningEnd (sweepStep m st)
        = (if accepted (sweepStep m st) = [] then None
           else Some (endOffset (last (accepted (sweepStep m st)))))"
    using Cons.prems by (simp add: sweepStep_def)
  from Cons.IH[OF this] show ?case by simp
qed

subsection \<open>Substrings, translation and the Replacer's walk\<close>

lemma nonoverlap_sorted_offsets:
  "successively (\<lambda>a b. endOffset a \<le> getOffset b) xs
   \<Longrightarrow> sorted_wrt (\<lambda>a b. getOffset a \<le> getOffset b) xs"
proof (induction xs)
  case Nil
  show ?case by simp
next
  case (Cons x xs)
  show ?case
  proof (cases xs)
    case Nil
    then show ?thesis by simp
  next
    case (Cons y ys)
    from Cons.prems Cons have xy: "endOffset x \<le> getOffset y"
      and tl: "successively (\<lambda>a b. endOffset a \<le> getOffset b) xs"
      by simp_all
    from Cons.IH[OF tl] have srt: "sorted_wrt (\<lambda>a b. getOffset a \<le> getOffset b) xs" .
    have "getOffset x \<le> getOffset y"
      using xy offset_le_endOffset[of x] by simp
    moreover have "\<forall>z\<in>set ys. getOffset y \<le> getOffset z"
      using srt Cons by simp
    ultimately have "\<forall>z\<in>set xs. getOffset x \<le> getOffset z"
      using Cons by auto
    with srt show ?thesis by simp
  qed
qed

lemma successively_nth:
  "successively P xs \<Longrightarrow> Suc i < length xs \<Longrightarrow> P (xs ! i) (xs ! Suc i)"
proof (induction xs arbitrary: i)
  case Nil
  then show ?case by simp
next
  case (Cons x xs)
  show ?case
  proof (cases i)
    case 0
    with Cons.prems show ?thesis by (cases xs) simp_all
  next
    case (Suc j)
    from Cons.prems have "successively P xs" by (cases xs) simp_all
    moreover from Cons.prems Suc have "Suc j < length xs" by simp
    ultimately have "P (xs ! j) (xs ! Suc j)" by (rule Cons.IH)
    with Suc show ?thesis by simp
  qed
qed



















lemma collector_nonoverlap:
  "successively (\<lambda>a b. endOffset a \<le> getOffset b) (collector pool)"
  by (simp add: collector_sweep sweep_successively)


subsection \<open>A small document: two text nodes around a tag, two overlapping matchers\<close>





section \<open>Properties of the Match model\<close>

text \<open>
  Claim C8. Where no subclass overrides it, \<^verbatim>\<open>getCssClassSuffixes\<close> returns the
  list with exactly one element, the type name that \<^verbatim>\<open>getType\<close> returns for this
  match.
\<close>

theorem getCssClassSuffixes_default:
  "getCssClassSuffixes getType m = [getType m]
   \<and> length (getCssClassSuffixes getType m) = 1
   \<and> set (getCssClassSuffixes getType m) = {getType m}"
  by (simp add: getCssClassSuffixes_def)

text \<open>
  Claim C9. After \<^verbatim>\<open>setOffset(n)\<close> the offset read back is \<open>n\<close>; the matched
  text, the tag builder and every field a subclass adds are what they were; and of two
  calls in a row the last one wins. No other method body of the class assigns to a
  field, which is why the getters are functions of the object alone.
\<close>

theorem setOffset_frame:
  "getOffset (setOffset n m) = n
   \<and> getMatchedText (setOffset n m) = getMatchedText m
   \<and> Match.tagBuilder (setOffset n m) = Match.tagBuilder m
   \<and> Match.more (setOffset n m) = Match.more m
   \<and> setOffset n (setOffset k m) = setOffset n m"
  by (simp add: setOffset_def getOffset_def getMatchedText_def)

text \<open>
  Claim C10. The constructor stores its configuration as it is: for every
  configuration, the empty matched text and negative offsets included, the new match
  returns the configuration's matched text and offset.
\<close>

theorem newMatch_verbatim:
  "getMatchedText (newMatch cfg) = MatchConfig.matchedText cfg
   \<and> getOffset (newMatch cfg) = MatchConfig.offset cfg
   \<and> Match.tagBuilder (newMatch cfg) = MatchConfig.tagBuilder cfg
   \<and> getMatchedText
        (newMatch \<lparr> MatchConfig.tagBuilder = tb, matchedText = [], offset = - 1 \<rparr>) = []
   \<and> getOffset
        (newMatch \<lparr> MatchConfig.tagBuilder = tb, matchedText = [], offset = - 1 \<rparr>) = - 1"
  by (simp add: newMatch_def getOffset_def getMatchedText_def)


section \<open>Properties of the Collector, the orchestration and the Replacer\<close>

text \<open>
  Claim C1. The Collector first sorts the pool by offset ascending, ties broken by the
  longer matched text first (the sorted pool is a rearrangement of the pool, in that
  order), then sweeps it left to right keeping the end offset of the previously accepted
  match: a candidate is rejected if and only if there is such a running end and its
  offset is strictly less than it; otherwise it is accepted and the running end
  becomes its end offset. At every point of the sweep the running end is the end offset
  of the last accepted match.
\<close>

theorem collector_sort_then_sweep:
  "mset (sortMatches pool) = mset pool
   \<and> sorted_wrt (\<lambda>a b. getOffset a < getOffset b
         \<or> (getOffset a = getOffset b
            \<and> length (getMatchedText b) \<le> length (getMatchedText a))) (sortMatches pool)
   \<and> collector pool = sweep None (sortMatches pool)
   \<and> sweep e (m # rest)
       = (if (\<exists>r. e = Some r \<and> getOffset m < r) then sweep e rest
          else m # sweep (Some (endOffset m)) rest)
   \<and> sweepStep m st
       = (if (\<exists>r. runningEnd st = Some r \<and> getOffset m < r) then st
          else \<lparr> runningEnd = Some (endOffset m), accepted = accepted st @ [m] \<rparr>)
   \<and> runningEnd (fold sweepStep ms \<lparr> runningEnd = None, accepted = [] \<rparr>)
       = (if accepted (fold sweepStep ms \<lparr> runningEnd = None, accepted = [] \<rparr>) = [] then None
          else Some (endOffset (last
                 (accepted (fold sweepStep ms \<lparr> runningEnd = None, accepted = [] \<rparr>)))))"
proof -
  have rej: "\<And>e x. rejected e x \<longleftrightarrow> (\<exists>r. e = Some r \<and> getOffset x < r)"
    by (simp add: rejected_def split: option.splits)
  have c1: "mset (sortMatches pool) = mset pool" by (rule mset_sortMatches)
  have "sorted_wrt precedes (sortMatches pool)" by (rule sorted_sortMatches)
  then have c2: "sorted_wrt (\<lambda>a b. getOffset a < getOffset b
         \<or> (getOffset a = getOffset b
            \<and> length (getMatchedText b) \<le> length (getMatchedText a))) (sortMatches pool)"
    by (simp add: precedes_def[abs_def])
  have c3: "collector pool = sweep None (sortMatches pool)" by (rule collector_sweep)
  have c4: "sweep e (m # rest)
       = (if (\<exists>r. e = Some r \<and> getOffset m < r) then sweep e rest
          else m # sweep (Some (endOffset m)) rest)"
    by (simp only: sweep.simps rej)
  have c5: "sweepStep m st
       = (if (\<exists>r. runningEnd st = Some r \<and> getOffset m < r) then st
          else \<lparr> runningEnd = Some (endOffset m), accepted = accepted st @ [m] \<rparr>)"
    by (simp only: sweepStep_def rej)
  have c6: "runningEnd (fold sweepStep ms \<lparr> runningEnd = None, accepted = [] \<rparr>)
       = (if accepted (fold sweepStep ms \<lparr> runningEnd = None, accepted = [] \<rparr>) = [] then None
          else Some (endOffset (last
                 (accepted (fold sweepStep ms \<lparr> runningEnd = None, accepted = [] \<rparr>)))))"
    by (rule runningEnd_fold) simp
  from c1 c2 c3 c4 c5 c6 show ?thesis by (intro conjI)
qed

theorem collector_sort_then_sweep_witness:
  "collector
     [\<lparr> tagBuilder = (), matchedText = ''456-7890'', offset = 9 \<rparr>,
      \<lparr> tagBuilder = (), matchedText = ''a.com/456-7890'', offset = 3 \<rparr>,
      \<lparr> tagBuilder = (), matchedText = ''a.com'', offset = 3 \<rparr>,
      \<lparr> tagBuilder = (), matchedText = ''x'', offset = 17 \<rparr>]
   = [\<lparr> tagBuilder = (), matchedText = ''a.com/456-7890'', offset = 3 \<rparr>,
      \<lparr> tagBuilder = (), matchedText = ''x'', offset = 17 \<rparr>]"
proof -
  let ?pool = "[\<lparr> tagBuilder = (), matchedText = ''456-7890'', offset = 9 \<rparr>,
      \<lparr> tagBuilder = (), matchedText = ''a.com/456-7890'', offset = 3 \<rparr>,
      \<lparr> tagBuilder = (), matchedText = ''a.com'', offset = 3 \<rparr>,
      \<lparr> tagBuilder = (), matchedText = ''x'', offset = 17 \<rparr>]"
  have "collector ?pool = sweep None (sortMatches ?pool)"
    using collector_sort_then_sweep[of ?pool] by (rule conjunct1[OF conjunct2[OF conjunct2]])
  then show ?thesis
    by (simp add: sortMatches_def precedes_def rejected_def endOffset_def
        getOffset_def getMatchedText_def)
qed

text \<open>
  Claim C2. For every pool, the Collector's output is sorted by offset ascending and
  no two neighbours overlap: the end offset of each match is at most the offset of the
  next one.
\<close>

theorem collector_sorted_nonoverlapping:
  "sorted_wrt (\<lambda>a b. getOffset a \<le> getOffset b) (collector pool)
   \<and> (\<forall>i. Suc i < length (collector pool)
          \<longrightarrow> endOffset (collector pool ! i) \<le> getOffset (collector pool ! Suc i))"
proof -
  have no: "successively (\<lambda>a b. endOffset a \<le> getOffset b) (collector pool)"
    by (rule collector_nonoverlap)
  then have "sorted_wrt (\<lambda>a b. getOffset a \<le> getOffset b) (collector pool)"
    by (rule nonoverlap_sorted_offsets)
  moreover have "\<forall>i. Suc i < length (collector pool)
          \<longrightarrow> endOffset (collector pool ! i) \<le> getOffset (collector pool ! Suc i)"
    using successively_nth[OF no] by blast
  ultimately show ?thesis by simp
qed

theorem collector_sorted_nonoverlapping_witness:
  "collector
     [\<lparr> tagBuilder = (), matchedText = ''bcd'', offset = 1 \<rparr>,
      \<lparr> tagBuilder = (), matchedText = ''ab'', offset = 0 \<rparr>,
      \<lparr> tagBuilder = (), matchedText = ''cd'', offset = 2 \<rparr>]
     = [\<lparr> tagBuilder = (), matchedText = ''ab'', offset = 0 \<rparr>,
        \<lparr> tagBuilder = (), matchedText = ''cd'', offset = 2 \<rparr>]
   \<and> endOffset \<lparr> tagBuilder = (), matchedText = ''ab'', offset = 0 \<rparr>
       \<le> getOffset \<lparr> tagBuilder = (), matchedText = ''cd'', offset = 2 \<rparr>"
proof -
  let ?pool = "[\<lparr> tagBuilder = (), matchedText = ''bcd'', offset = 1 \<rparr>,
      \<lparr> tagBuilder = (), matchedText = ''ab'', offset = 0 \<rparr>,
      \<lparr> tagBuilder = (), matchedText = ''cd'', offset = 2 \<rparr>]"
  have out: "collector ?pool
     = [\<lparr> tagBuilder = (), matchedText = ''ab'', offset = 0 \<rparr>,
        \<lparr> tagBuilder = (), matchedText = ''cd'', offset = 2 \<rparr>]"
    by (simp add: collector_def sortMatches_def sweepStep_def precedes_def rejected_def
        endOffset_def getOffset_def getMatchedText_def)
  have "Suc 0 < length (collector ?pool)" by (simp only: out) simp
  with collector_sorted_nonoverlapping[of ?pool]
  have "endOffset (collector ?pool ! 0) \<le> getOffset (collector ?pool ! Suc 0)" by blast
  then have "endOffset \<lparr> tagBuilder = (), matchedText = ''ab'', offset = 0 \<rparr>
       \<le> getOffset \<lparr> tagBuilder = (), matchedText = ''cd'', offset = 2 \<rparr>"
    by (simp only: out nth_Cons_0 nth_Cons_Suc)
  with out show ?thesis by (rule conjI)
qed



end
